theory Spec2Isabelle
  imports Complex_Main
begin

section \<open>Conventions of the embedding\<close>

text \<open>
  The theory embeds the class \<open>TradingPlatform\<close> of \<open>src/app.py\<close>: the symbol
  normaliser \<open>format_symbol_for_yahoo\<close>, the timeframe table \<open>get_timeframe_period\<close>,
  the indicators \<open>calculate_rsi\<close>, \<open>calculate_sma\<close> and
  \<open>calculate_bollinger_bands\<close>, and the chart assembly \<open>fetch_chart_data\<close>.

  \<^item> A Python \<open>str\<close> is a \<open>string\<close> (a list of characters); the symbols the
    program handles are ASCII, and \<open>str.upper\<close> is modelled on ASCII letters.
  \<^item> A Python \<open>int\<close> is an \<open>int\<close>; a list index that the source takes from
    \<open>range(len(...))\<close> is a \<open>nat\<close>.
  \<^item> A Python or numpy float is a \<open>real\<close>: arithmetic is exact, there is no
    overflow and no nan or infinity among the inputs. Where exact
    arithmetic has no real result (the mean of an empty numpy slice, a numpy
    division by zero, a fractional power of a negative number) the model returns
    the error \<open>OutsideReals\<close>; where Python raises, it returns the exception.
  \<^item> One pair of sums is rounded as the machine rounds it: the warm-up bands
    \<open>values[i] + 10\<close> and \<open>values[i] - 10\<close> of \<open>calculate_bollinger_bands\<close>, whose
    difference the specification compares with 20 exactly. \<open>round_double\<close> is the
    rounding of IEEE 754 binary64 to the nearest double, ties to even.
  \<^item> A function that can fail returns \<open>error + 'a\<close>, with \<open>Inl\<close> for the failure.
  \<^item> The market-data provider is a parameter of \<open>fetch_chart_data\<close>: a function that
    either raises or returns the rows of its data frame.
\<close>

datatype error = ZeroDivisionError | IndexError | OutsideReals

section \<open>Python primitives\<close>

text \<open>\<open>needle in haystack\<close> on strings: the needle occurs as a contiguous block.\<close>

fun str_contains :: "string \<Rightarrow> string \<Rightarrow> bool" where
  "str_contains needle [] = (needle = [])"
| "str_contains needle (c # cs) =
     (take (length needle) (c # cs) = needle \<or> str_contains needle cs)"

text \<open>\<open>str.upper\<close> on ASCII: the letters a to z move to A to Z, every other
  character stays.\<close>

definition upper_char :: "char \<Rightarrow> char" where
  "upper_char c =
     (let n = (of_char c :: nat) in if 97 \<le> n \<and> n \<le> 122 then char_of (n - 32) else c)"

definition py_upper :: "string \<Rightarrow> string" where
  "py_upper s = map upper_char s"

text \<open>
  A slice \<open>xs[a:b]\<close> of a Python list or a numpy array (step 1): a negative bound
  counts from the end, and both bounds are clamped to the length.
\<close>

definition slice_index :: "nat \<Rightarrow> int \<Rightarrow> nat" where
  "slice_index n a = (if a < 0 then nat (max 0 (int n + a)) else min n (nat a))"

definition py_slice :: "'a list \<Rightarrow> int \<Rightarrow> int \<Rightarrow> 'a list" where
  "py_slice xs a b =
     drop (slice_index (length xs) a) (take (slice_index (length xs) b) xs)"

text \<open>\<open>xs[i]\<close> for an index \<open>i \<ge> 0\<close>: IndexError beyond the end.\<close>

definition py_get :: "'a list \<Rightarrow> nat \<Rightarrow> error + 'a" where
  "py_get xs i = (if i < length xs then Inr (xs ! i) else Inl IndexError)"

text \<open>\<open>x / n\<close> for a Python number \<open>x\<close> and a Python \<open>int\<close> \<open>n\<close>.\<close>

definition py_truediv :: "real \<Rightarrow> int \<Rightarrow> error + real" where
  "py_truediv x n = (if n = 0 then Inl ZeroDivisionError else Inr (x / real_of_int n))"

text \<open>\<open>x ** 0.5\<close>: the square root of a number that is not negative; a negative
  base has no real result (Python answers with a complex number, numpy with nan).\<close>

definition py_pow_half :: "real \<Rightarrow> error + real" where
  "py_pow_half x = (if x < 0 then Inl OutsideReals else Inr (sqrt x))"

text \<open>\<open>int(x)\<close> of a float: truncation towards zero.\<close>

definition py_int :: "real \<Rightarrow> int" where
  "py_int x = (if x < 0 then \<lceil>x\<rceil> else \<lfloor>x\<rfloor>)"

text \<open>
  Rounding to the nearest double. A double is an integer multiple of a power of two:
  the multiple has at most 53 bits, and the power is at least \<open>2\<^sup>-\<^sup>1\<^sup>0\<^sup>7\<^sup>4\<close> (the
  spacing of the subnormal numbers). \<open>double_ulp x\<close> is the spacing of the doubles
  at \<open>x\<close>, and \<open>round_double x\<close> is the multiple of it nearest to \<open>x\<close>, the even one
  of two that are equally near. There is no overflow: the exponent has no upper bound.
\<close>

definition round_half_even :: "real \<Rightarrow> int" where
  "round_half_even t =
     (let f = \<lfloor>t\<rfloor>; d = t - of_int f
      in if d < 1 / 2 then f else if 1 / 2 < d then f + 1 else if even f then f else f + 1)"

definition pow2 :: "int \<Rightarrow> real" where
  "pow2 e = (if 0 \<le> e then 2 ^ nat e else 1 / 2 ^ nat (- e))"

definition double_exponent :: "real \<Rightarrow> int" where
  "double_exponent x = max (\<lfloor>log 2 \<bar>x\<bar>\<rfloor> - 52) (- 1074)"

definition double_ulp :: "real \<Rightarrow> real" where
  "double_ulp x = pow2 (double_exponent x)"

definition round_to_grid :: "int \<Rightarrow> real \<Rightarrow> real" where
  "round_to_grid e x = of_int (round_half_even (x / pow2 e)) * pow2 e"

definition round_double :: "real \<Rightarrow> real" where
  "round_double x = round_to_grid (double_exponent x) x"

text \<open>\<open>np.diff\<close>: the successive differences, one fewer than the input.\<close>

fun np_diff :: "real list \<Rightarrow> real list" where
  "np_diff (x # y # xs) = (y - x) # np_diff (y # xs)"
| "np_diff xs = []"

text \<open>\<open>np.mean\<close>: of an empty slice numpy returns nan (with a warning).\<close>

definition np_mean :: "real list \<Rightarrow> error + real" where
  "np_mean xs = (if xs = [] then Inl OutsideReals else Inr (sum_list xs / real (length xs)))"

text \<open>Division of numpy floats: by zero numpy returns an infinity or nan (with a
  warning), not an exception.\<close>

definition np_divide :: "real \<Rightarrow> real \<Rightarrow> error + real" where
  "np_divide x y = (if y = 0 then Inl OutsideReals else Inr (x / y))"

text \<open>
  The loop \<open>for i in ...: ...; acc.append(v)\<close>: the body computes the value for
  the loop variable \<open>i\<close> or fails, and a failure leaves the loop.
\<close>

fun append_loop :: "('i \<Rightarrow> error + 'a) \<Rightarrow> 'i list \<Rightarrow> 'a list \<Rightarrow> error + 'a list" where
  "append_loop body [] acc = Inr acc"
| "append_loop body (i # is) acc =
     (case body i of
        Inl e \<Rightarrow> Inl e
      | Inr v \<Rightarrow> append_loop body is (acc @ [v]))"

text \<open>The same loop with the two result lists of the Bollinger bands.\<close>

fun append_loop2 ::
  "(nat \<Rightarrow> error + 'a \<times> 'a) \<Rightarrow> nat list \<Rightarrow> 'a list \<Rightarrow> 'a list \<Rightarrow> error + 'a list \<times> 'a list" where
  "append_loop2 body [] upper lower = Inr (upper, lower)"
| "append_loop2 body (i # is) upper lower =
     (case body i of
        Inl e \<Rightarrow> Inl e
      | Inr (u, l) \<Rightarrow> append_loop2 body is (upper @ [u]) (lower @ [l]))"

section \<open>Symbol normalisation\<close>

text \<open>\<open>format_symbol_for_yahoo\<close> (lines 22 to 36 of \<open>src/app.py\<close>), with its two local
  lists.\<close>

definition indian_exchanges :: "string list" where
  "indian_exchanges = [''.NS'', ''.BO'']"

definition common_us_symbols :: "string list" where
  "common_us_symbols =
     [''AAPL'', ''GOOGL'', ''MSFT'', ''TSLA'', ''AMZN'', ''NVDA'', ''META'', ''SPY'']"

definition format_symbol_for_yahoo :: "string \<Rightarrow> string" where
  "format_symbol_for_yahoo symbol =
     (if list_ex (\<lambda>exchange. str_contains exchange symbol) indian_exchanges then symbol
      else if py_upper symbol \<in> set common_us_symbols then symbol
      else if length symbol \<le> 10 \<and> \<not> str_contains ''.'' symbol then symbol @ ''.NS''
      else symbol)"

section \<open>Timeframe table\<close>

text \<open>The dictionary of \<open>get_timeframe_period\<close> (lines 38 to 58), in the order of the
  source.\<close>

definition interval_map :: "(string \<times> (string \<times> string)) list" where
  "interval_map =
     [(''1m'', (''1m'', ''1d'')),
      (''5m'', (''5m'', ''5d'')),
      (''15m'', (''15m'', ''5d'')),
      (''1h'', (''1h'', ''1mo'')),
      (''4h'', (''1h'', ''3mo'')),
      (''1d'', (''1d'', ''1y'')),
      (''2d'', (''1d'', ''2y'')),
      (''3d'', (''1d'', ''2y'')),
      (''1w'', (''1wk'', ''2y'')),
      (''2w'', (''1wk'', ''5y'')),
      (''3w'', (''1wk'', ''5y'')),
      (''1M'', (''1mo'', ''5y'')),
      (''2M'', (''1mo'', ''10y'')),
      (''3M'', (''1mo'', ''10y'')),
      (''6M'', (''1mo'', ''max'')),
      (''1Y'', (''1mo'', ''max''))]"

text \<open>\<open>interval_map.get(timeframe, ('1d', '1y'))\<close>; the pair is (interval, period).\<close>

definition get_timeframe_period :: "string \<Rightarrow> string \<times> string" where
  "get_timeframe_period timeframe =
     (case map_of interval_map timeframe of
        Some p \<Rightarrow> p
      | None \<Rightarrow> (''1d'', ''1y''))"

section \<open>Indicators\<close>

subsection \<open>Relative strength index\<close>

text \<open>\<open>calculate_rsi\<close> (lines 60 to 86). First the body of its loop at index \<open>i\<close>:
  the value that the iteration appends to \<open>rsi_values\<close>.\<close>

definition rsi_at :: "real list \<Rightarrow> real list \<Rightarrow> int \<Rightarrow> nat \<Rightarrow> error + real" where
  "rsi_at gains losses period i =
     (if int i < period then Inr 50
      else
        case np_mean (py_slice gains (max 0 (int i - period)) (int i)) of
          Inl e \<Rightarrow> Inl e
        | Inr avg_gain \<Rightarrow>
            (case np_mean (py_slice losses (max 0 (int i - period)) (int i)) of
               Inl e \<Rightarrow> Inl e
             | Inr avg_loss \<Rightarrow>
                 if avg_loss = 0 then Inr 100
                 else
                   (case np_divide avg_gain avg_loss of
                      Inl e \<Rightarrow> Inl e
                    | Inr rs \<Rightarrow>
                        (case np_divide 100 (1 + rs) of
                           Inl e \<Rightarrow> Inl e
                         | Inr q \<Rightarrow> Inr (100 - q)))))"

definition calculate_rsi :: "real list \<Rightarrow> int \<Rightarrow> error + real list" where
  "calculate_rsi prices period =
     (if int (length prices) < period + 1 then Inr (replicate (length prices) 50)
      else
        let deltas = np_diff prices;
            gains = map (\<lambda>d. if d > 0 then d else 0) deltas;
            losses = map (\<lambda>d. if d < 0 then - d else 0) deltas
        in append_loop (rsi_at gains losses period) [0..<length prices] [])"

subsection \<open>Simple moving average\<close>

text \<open>\<open>calculate_sma\<close> (lines 88 to 97): the body of the loop at index \<open>i\<close>, and the
  loop.\<close>

definition sma_at :: "real list \<Rightarrow> int \<Rightarrow> nat \<Rightarrow> error + real" where
  "sma_at values period i =
     (if int i < period - 1 then py_get values i
      else py_truediv (sum_list (py_slice values (int i - period + 1) (int i + 1))) period)"

definition calculate_sma :: "real list \<Rightarrow> int \<Rightarrow> error + real list" where
  "calculate_sma values period = append_loop (sma_at values period) [0..<length values] []"

subsection \<open>Bollinger bands\<close>

text \<open>\<open>calculate_bollinger_bands\<close> (lines 99 to 116): the body of the loop at index
  \<open>i\<close>, which gives the values appended to \<open>upper\<close> and to \<open>lower\<close>, and the loop
  after the call of \<open>calculate_sma\<close>. The two warm-up sums of lines 106 and 107 are
  rounded to doubles.\<close>

definition bands_at :: "real list \<Rightarrow> real list \<Rightarrow> int \<Rightarrow> real \<Rightarrow> nat \<Rightarrow> error + real \<times> real" where
  "bands_at values sma period multiplier i =
     (if int i < period - 1 then
        (case py_get values i of
           Inl e \<Rightarrow> Inl e
         | Inr v \<Rightarrow> Inr (round_double (v + 10), round_double (v - 10)))
      else
        let slice_values = py_slice values (int i - period + 1) (int i + 1) in
        case py_get sma i of
          Inl e \<Rightarrow> Inl e
        | Inr mean \<Rightarrow>
            (case py_truediv (sum_list (map (\<lambda>x. (x - mean)\<^sup>2) slice_values)) period of
               Inl e \<Rightarrow> Inl e
             | Inr variance \<Rightarrow>
                 (case py_pow_half variance of
                    Inl e \<Rightarrow> Inl e
                  | Inr std_dev \<Rightarrow>
                      Inr (mean + multiplier * std_dev, mean - multiplier * std_dev))))"

definition calculate_bollinger_bands ::
  "real list \<Rightarrow> int \<Rightarrow> real \<Rightarrow> error + real list \<times> real list" where
  "calculate_bollinger_bands values period multiplier =
     (case calculate_sma values period of
        Inl e \<Rightarrow> Inl e
      | Inr sma \<Rightarrow>
          append_loop2 (bands_at values sma period multiplier) [0..<length values] [] [])"

section \<open>Chart assembly\<close>

text \<open>
  \<open>fetch_chart_data\<close> (lines 145 to 190).
  A row of the data frame that the provider's \<open>history\<close> returns:
  \<open>index_timestamp\<close> is \<open>index.timestamp()\<close>, the seconds since the epoch, and the
  other fields are the columns the source reads.
\<close>

record hist_row =
  index_timestamp :: real
  Open :: real
  High :: real
  Low :: real
  Close :: real
  Volume :: real

record candle =
  timestamp :: int
  "open" :: real
  high :: real
  low :: real
  close :: real
  volume :: int

record rsi_point =
  timestamp :: int
  "value" :: real
  ma :: real
  upperBB :: real
  lowerBB :: real

record chart_data =
  candles :: "candle list"
  rsi :: "rsi_point list"

text \<open>The provider call \<open>yf.Ticker(symbol).history(period=..., interval=...)\<close>
  either raises an exception or returns the rows of a data frame.\<close>

datatype provider_reply = Raises | Returns "hist_row list"

definition to_candle :: "hist_row \<Rightarrow> candle" where
  "to_candle row =
     \<lparr>candle.timestamp = py_int (index_timestamp row * 1000),
      open = Open row,
      high = High row,
      low = Low row,
      close = Close row,
      volume = py_int (Volume row)\<rparr>"

text \<open>The body of the loop \<open>for i, candle in enumerate(candles)\<close>.\<close>

definition rsi_point_at ::
  "real list \<Rightarrow> real list \<Rightarrow> real list \<Rightarrow> real list \<Rightarrow> nat \<times> candle \<Rightarrow> error + rsi_point" where
  "rsi_point_at rsi_values rsi_ma rsi_upper_bb rsi_lower_bb ic =
     (case ic of (i, candle) \<Rightarrow>
        (case py_get rsi_values i of
           Inl e \<Rightarrow> Inl e
         | Inr v \<Rightarrow>
             (case py_get rsi_ma i of
                Inl e \<Rightarrow> Inl e
              | Inr m \<Rightarrow>
                  (case py_get rsi_upper_bb i of
                     Inl e \<Rightarrow> Inl e
                   | Inr u \<Rightarrow>
                       (case py_get rsi_lower_bb i of
                          Inl e \<Rightarrow> Inl e
                        | Inr l \<Rightarrow>
                            Inr \<lparr>rsi_point.timestamp = candle.timestamp candle,
                                 value = v, ma = m, upperBB = u, lowerBB = l\<rparr>)))))"

text \<open>The \<open>try\<close> block of \<open>fetch_chart_data\<close> from the candles on, for a data frame
  that is not empty.\<close>

definition chart_of_history :: "hist_row list \<Rightarrow> error + chart_data" where
  "chart_of_history hist =
     (let candles = map to_candle hist;
          close_prices = map close candles
      in case calculate_rsi close_prices 14 of
           Inl e \<Rightarrow> Inl e
         | Inr rsi_values \<Rightarrow>
             (case calculate_sma rsi_values 9 of
                Inl e \<Rightarrow> Inl e
              | Inr rsi_ma \<Rightarrow>
                  (case calculate_bollinger_bands rsi_values 20 2 of
                     Inl e \<Rightarrow> Inl e
                   | Inr (rsi_upper_bb, rsi_lower_bb) \<Rightarrow>
                       (case append_loop
                               (rsi_point_at rsi_values rsi_ma rsi_upper_bb rsi_lower_bb)
                               (enumerate 0 candles) [] of
                          Inl e \<Rightarrow> Inl e
                        | Inr rsi_data \<Rightarrow> Inr \<lparr>candles = candles, rsi = rsi_data\<rparr>))))"

text \<open>
  \<open>except Exception: return None\<close>: an exception becomes \<open>None\<close>. A result outside
  the reals is no exception, so it is not caught.
\<close>

fun except_Exception :: "error + 'a \<Rightarrow> error + 'a option" where
  "except_Exception (Inr v) = Inr (Some v)"
| "except_Exception (Inl OutsideReals) = Inl OutsideReals"
| "except_Exception (Inl e) = Inr None"

text \<open>
  \<open>fetch_chart_data\<close>, with the provider as the parameter \<open>history\<close>, called with the
  formatted symbol, the period and the interval. \<open>Inr None\<close> is Python's \<open>None\<close>.
\<close>

definition fetch_chart_data ::
  "(string \<Rightarrow> string \<Rightarrow> string \<Rightarrow> provider_reply) \<Rightarrow> string \<Rightarrow> string \<Rightarrow> error + chart_data option" where
  "fetch_chart_data history symbol timeframe =
     (let formatted_symbol = format_symbol_for_yahoo symbol;
          (interval, period) = get_timeframe_period timeframe
      in case history formatted_symbol period interval of
           Raises \<Rightarrow> Inr None
         | Returns hist \<Rightarrow>
             if hist = [] then Inr None
             else except_Exception (chart_of_history hist))"

section \<open>The indicators as the specification words them\<close>

text \<open>
  The definitions of this section follow the specification, index by index; the
  theorems below compare them with the loops of the source.
\<close>

definition delta :: "real list \<Rightarrow> nat \<Rightarrow> real" where
  "delta prices k = prices ! (k + 1) - prices ! k"

definition gain :: "real list \<Rightarrow> nat \<Rightarrow> real" where
  "gain prices k = max (delta prices k) 0"

definition loss :: "real list \<Rightarrow> nat \<Rightarrow> real" where
  "loss prices k = max (- delta prices k) 0"

text \<open>The plain mean of \<open>f\<close> over the indices \<open>i - period, ..., i - 1\<close>.\<close>

definition rolling_mean :: "(nat \<Rightarrow> real) \<Rightarrow> int \<Rightarrow> nat \<Rightarrow> real" where
  "rolling_mean f period i = (\<Sum>k\<leftarrow>[nat (int i - period)..<i]. f k) / real_of_int period"

definition rsi_spec :: "real list \<Rightarrow> int \<Rightarrow> nat \<Rightarrow> real" where
  "rsi_spec prices period i =
     (if int i < period then 50
      else
        let avgGain = rolling_mean (gain prices) period i;
            avgLoss = rolling_mean (loss prices) period i
        in if avgLoss = 0 then 100 else 100 - 100 / (1 + avgGain / avgLoss))"

text \<open>The trailing window \<open>values[i - period + 1 .. i]\<close>, both ends included.\<close>

definition window :: "real list \<Rightarrow> int \<Rightarrow> nat \<Rightarrow> real list" where
  "window values period i = map (\<lambda>k. values ! k) [nat (int i - period + 1)..<i + 1]"

definition mean :: "real list \<Rightarrow> real" where
  "mean xs = sum_list xs / real (length xs)"

definition sma_spec :: "real list \<Rightarrow> int \<Rightarrow> nat \<Rightarrow> real" where
  "sma_spec values period i =
     (if int i < period - 1 then values ! i else mean (window values period i))"

text \<open>The population variance of the window about the moving average: the sum of
  the squared deviations over \<open>period\<close>, not over \<open>period - 1\<close>.\<close>

definition variance_spec :: "real list \<Rightarrow> int \<Rightarrow> nat \<Rightarrow> real" where
  "variance_spec values period i =
     (\<Sum>x\<leftarrow>window values period i. (x - sma_spec values period i)\<^sup>2) / real_of_int period"

definition upper_spec :: "real list \<Rightarrow> int \<Rightarrow> real \<Rightarrow> nat \<Rightarrow> real" where
  "upper_spec values period multiplier i =
     (if int i < period - 1 then round_double (values ! i + 10)
      else sma_spec values period i + multiplier * sqrt (variance_spec values period i))"

definition lower_spec :: "real list \<Rightarrow> int \<Rightarrow> real \<Rightarrow> nat \<Rightarrow> real" where
  "lower_spec values period multiplier i =
     (if int i < period - 1 then round_double (values ! i - 10)
      else sma_spec values period i - multiplier * sqrt (variance_spec values period i))"

section \<open>Facts about the primitives\<close>

lemma str_contains_iff:
  "str_contains needle hay \<longleftrightarrow> (\<exists>ps ss. hay = ps @ needle @ ss)"
proof (induction hay)
  case Nil
  then show ?case by auto
next
  case (Cons c cs)
  have "take (length needle) (c # cs) = needle \<longleftrightarrow> (\<exists>ss. c # cs = needle @ ss)"
    by (metis append_eq_conv_conj append_take_drop_id)
  moreover have "(\<exists>ps ss. c # cs = ps @ needle @ ss) \<longleftrightarrow>
      (\<exists>ss. c # cs = needle @ ss) \<or> (\<exists>ps ss. cs = ps @ needle @ ss)"
  proof
    assume "\<exists>ps ss. c # cs = ps @ needle @ ss"
    then obtain ps ss where e: "c # cs = ps @ needle @ ss" by blast
    show "(\<exists>ss. c # cs = needle @ ss) \<or> (\<exists>ps ss. cs = ps @ needle @ ss)"
    proof (cases ps)
      case Nil
      with e show ?thesis by auto
    next
      case (Cons p ps')
      with e have "cs = ps' @ needle @ ss" by simp
      then show ?thesis by blast
    qed
  next
    assume "(\<exists>ss. c # cs = needle @ ss) \<or> (\<exists>ps ss. cs = ps @ needle @ ss)"
    then show "\<exists>ps ss. c # cs = ps @ needle @ ss"
    proof
      assume "\<exists>ss. c # cs = needle @ ss"
      then obtain ss where "c # cs = [] @ needle @ ss" by auto
      then show ?thesis by blast
    next
      assume "\<exists>ps ss. cs = ps @ needle @ ss"
      then obtain ps ss where "c # cs = (c # ps) @ needle @ ss" by auto
      then show ?thesis by blast
    qed
  qed
  ultimately show ?case using Cons.IH by simp
qed

lemma str_contains_suffix: "str_contains needle (s @ needle)"
proof -
  have "s @ needle = s @ needle @ []" by simp
  then show ?thesis unfolding str_contains_iff by blast
qed

lemma str_contains_char: "str_contains [c] s \<longleftrightarrow> c \<in> set s"
  by (induction s) auto

lemma append_loop_Inr:
  "(\<And>i. i \<in> set is \<Longrightarrow> body i = Inr (g i)) \<Longrightarrow>
   append_loop body is acc = Inr (acc @ map g is)"
  by (induction "is" arbitrary: acc) simp_all

lemma append_loop2_Inr:
  "(\<And>i. i \<in> set is \<Longrightarrow> body i = Inr (g i, h i)) \<Longrightarrow>
   append_loop2 body is upper lower = Inr (upper @ map g is, lower @ map h is)"
  by (induction "is" arbitrary: upper lower) simp_all

lemma drop_take_nth: "e \<le> length xs \<Longrightarrow> drop s (take e xs) = map ((!) xs) [s..<e]"
  by (rule nth_equalityI) auto

text \<open>A slice with both bounds inside the list is the run of its elements.\<close>

lemma py_slice_nth:
  assumes "0 \<le> a" and "0 \<le> b" and "nat b \<le> length xs"
  shows "py_slice xs a b = map ((!) xs) [nat a..<nat b]"
proof (cases "a \<le> b")
  case True
  with assms have "slice_index (length xs) a = nat a" "slice_index (length xs) b = nat b"
    by (auto simp: slice_index_def)
  then show ?thesis
    using assms by (simp add: py_slice_def drop_take_nth)
next
  case False
  with assms have "slice_index (length xs) b \<le> slice_index (length xs) a"
    by (auto simp: slice_index_def)
  moreover from False have "nat b \<le> nat a" by simp
  ultimately show ?thesis by (simp add: py_slice_def)
qed

lemma length_np_diff: "length (np_diff xs) = length xs - 1"
  by (induction xs rule: np_diff.induct) simp_all

lemma nth_np_diff: "Suc k < length xs \<Longrightarrow> np_diff xs ! k = xs ! Suc k - xs ! k"
proof (induction xs arbitrary: k rule: np_diff.induct)
  case (1 x y xs)
  then show ?case by (cases k) simp_all
qed simp_all

section \<open>The relative strength index\<close>

lemma rolling_mean_nonneg:
  "(\<And>k. 0 \<le> f k) \<Longrightarrow> 0 \<le> period \<Longrightarrow> 0 \<le> rolling_mean f period i"
  by (auto simp: rolling_mean_def intro!: divide_nonneg_nonneg sum_list_nonneg)

lemma gain_nonneg: "0 \<le> gain prices k" and loss_nonneg: "0 \<le> loss prices k"
  by (simp_all add: gain_def loss_def)

lemma gains_nth:
  assumes "Suc k < length prices"
  shows "map (\<lambda>d. if d > 0 then d else 0) (np_diff prices) ! k = gain prices k"
  using assms by (simp add: length_np_diff nth_np_diff gain_def delta_def max_def)

lemma losses_nth:
  assumes "Suc k < length prices"
  shows "map (\<lambda>d. if d < 0 then - d else 0) (np_diff prices) ! k = loss prices k"
  using assms by (simp add: length_np_diff nth_np_diff loss_def delta_def max_def)

text \<open>The mean of the slice \<open>xs[max(0, i - period):i]\<close> is the rolling mean.\<close>

lemma np_mean_window:
  assumes p: "1 \<le> period" and ip: "period \<le> int i" and il: "i \<le> length xs"
    and nth: "\<And>k. k < length xs \<Longrightarrow> xs ! k = f k"
  shows "np_mean (py_slice xs (max 0 (int i - period)) (int i)) =
         Inr (rolling_mean f period i)"
proof -
  have m: "max 0 (int i - period) = int i - period" using ip by simp
  have s: "py_slice xs (int i - period) (int i) = map ((!) xs) [nat (int i - period)..<i]"
    using py_slice_nth [of "int i - period" "int i" xs] ip il by simp
  have ne: "[nat (int i - period)..<i] \<noteq> []" using p ip by simp
  have "int (length [nat (int i - period)..<i]) = period" using p ip by simp
  then have len: "real (length [nat (int i - period)..<i]) = real_of_int period"
    by (metis of_int_of_nat_eq)
  have eq: "map ((!) xs) [nat (int i - period)..<i] = map f [nat (int i - period)..<i]"
    using il nth by simp
  show ?thesis
    unfolding m s eq using ne len by (simp add: np_mean_def rolling_mean_def)
qed

lemma rsi_at_spec:
  assumes p: "1 \<le> period" and il: "i < length prices"
  shows "rsi_at (map (\<lambda>d. if d > 0 then d else 0) (np_diff prices))
           (map (\<lambda>d. if d < 0 then - d else 0) (np_diff prices)) period i =
         Inr (rsi_spec prices period i)"
proof (cases "int i < period")
  case True
  then show ?thesis by (simp add: rsi_at_def rsi_spec_def)
next
  case False
  define gains where "gains = map (\<lambda>d. if d > 0 then d else 0) (np_diff prices)"
  define losses where "losses = map (\<lambda>d. if d < 0 then - d else 0) (np_diff prices)"
  define g where "g = rolling_mean (gain prices) period i"
  define l where "l = rolling_mean (loss prices) period i"
  have lg: "i \<le> length gains" "i \<le> length losses"
    using il by (simp_all add: gains_def losses_def length_np_diff)
  have ip: "period \<le> int i" using False by simp
  have ng: "gains ! k = gain prices k" if "k < length gains" for k
    unfolding gains_def using that by (intro gains_nth) (simp add: gains_def length_np_diff)
  have nl: "losses ! k = loss prices k" if "k < length losses" for k
    unfolding losses_def using that by (intro losses_nth) (simp add: losses_def length_np_diff)
  have mg: "np_mean (py_slice gains (max 0 (int i - period)) (int i)) = Inr g"
    unfolding g_def using p ip lg(1) ng by (rule np_mean_window)
  have ml: "np_mean (py_slice losses (max 0 (int i - period)) (int i)) = Inr l"
    unfolding l_def using p ip lg(2) nl by (rule np_mean_window)
  have g0: "0 \<le> g" unfolding g_def using p by (intro rolling_mean_nonneg gain_nonneg) simp
  have l0: "0 \<le> l" unfolding l_def using p by (intro rolling_mean_nonneg loss_nonneg) simp
  have "rsi_at gains losses period i =
        Inr (if l = 0 then 100 else 100 - 100 / (1 + g / l))"
  proof (cases "l = 0")
    case True
    then show ?thesis using False mg ml by (simp add: rsi_at_def)
  next
    case nz: False
    with l0 g0 have "0 \<le> g / l" by simp
    then have "1 + g / l \<noteq> 0" by linarith
    then show ?thesis
      using False mg ml nz by (simp add: rsi_at_def np_divide_def)
  qed
  then show ?thesis
    using False by (simp add: rsi_spec_def gains_def losses_def g_def l_def Let_def)
qed

text \<open>With a period that is not positive, the first mean is over an empty slice.\<close>

lemma rsi_at_empty_mean:
  assumes "period \<le> 0"
  shows "rsi_at gains losses period 0 = Inl OutsideReals"
  using assms by (simp add: rsi_at_def py_slice_def slice_index_def np_mean_def)

lemma calculate_rsi_eq:
  "calculate_rsi prices period =
     (if period \<le> 0 \<and> prices \<noteq> [] then Inl OutsideReals
      else Inr (map (rsi_spec prices period) [0..<length prices]))"
proof (cases "1 \<le> period")
  case True
  show ?thesis
  proof (cases "int (length prices) < period + 1")
    case short: True
    have "map (rsi_spec prices period) [0..<length prices] = replicate (length prices) 50"
      using short by (intro nth_equalityI) (simp_all add: rsi_spec_def)
    then show ?thesis using True short by (simp add: calculate_rsi_def)
  next
    case long: False
    have "append_loop (rsi_at (map (\<lambda>d. if d > 0 then d else 0) (np_diff prices))
             (map (\<lambda>d. if d < 0 then - d else 0) (np_diff prices)) period)
            [0..<length prices] [] =
          Inr ([] @ map (rsi_spec prices period) [0..<length prices])"
      using True by (intro append_loop_Inr rsi_at_spec) simp_all
    then show ?thesis using True long by (simp add: calculate_rsi_def Let_def)
  qed
next
  case False
  then have np: "period \<le> 0" by simp
  show ?thesis
  proof (cases prices)
    case Nil
    then show ?thesis by (simp add: calculate_rsi_def)
  next
    case (Cons x xs)
    then have "0 < length prices" by simp
    then have "[0..<length prices] = 0 # [Suc 0..<length prices]"
      by (rule upt_conv_Cons)
    then show ?thesis
      using np Cons by (simp add: calculate_rsi_def Let_def rsi_at_empty_mean)
  qed
qed

lemma rsi_spec_range:
  assumes "1 \<le> period"
  shows "0 \<le> rsi_spec prices period i \<and> rsi_spec prices period i \<le> 100"
proof -
  define g where "g = rolling_mean (gain prices) period i"
  define l where "l = rolling_mean (loss prices) period i"
  have g0: "0 \<le> g" unfolding g_def using assms by (intro rolling_mean_nonneg gain_nonneg) simp
  have l0: "0 \<le> l" unfolding l_def using assms by (intro rolling_mean_nonneg loss_nonneg) simp
  have "0 \<le> 100 - 100 / (1 + g / l) \<and> 100 - 100 / (1 + g / l) \<le> 100" if "l \<noteq> 0"
  proof -
    from that l0 g0 have "0 \<le> g / l" by simp
    then have one: "1 \<le> 1 + g / l" by simp
    then have "100 / (1 + g / l) \<le> 100" by (simp add: divide_le_eq)
    moreover from one have "0 \<le> 100 / (1 + g / l)" by simp
    ultimately show ?thesis by simp
  qed
  then show ?thesis
    by (simp add: rsi_spec_def Let_def g_def l_def)
qed

text \<open>On a constant price sequence every loss is zero.\<close>

lemma rsi_spec_constant:
  assumes "period \<le> int i" and "i < n"
  shows "rsi_spec (replicate n c) period i = 100"
proof -
  have "loss (replicate n c) k = 0" if "k \<in> set [nat (int i - period)..<i]" for k
    using that assms by (simp add: loss_def delta_def)
  then have "map (loss (replicate n c)) [nat (int i - period)..<i] =
             map (\<lambda>k. 0) [nat (int i - period)..<i]"
    by (intro map_cong) simp_all
  then have "sum_list (map (loss (replicate n c)) [nat (int i - period)..<i]) = 0"
    by (simp only: sum_list_0)
  then have "rolling_mean (loss (replicate n c)) period i = 0"
    by (simp only: rolling_mean_def div_0)
  then show ?thesis using assms by (simp add: rsi_spec_def)
qed

section \<open>Rounding to doubles\<close>

lemma pow2_powr: "pow2 e = 2 powr real_of_int e"
  by (simp add: pow2_def powr_int)

lemma pow2_pos: "0 < pow2 e"
  by (simp add: pow2_powr)

lemma pow2_add: "pow2 (a + b) = pow2 a * pow2 b"
  by (simp add: pow2_powr powr_add)

lemma pow2_mono: "a \<le> b \<Longrightarrow> pow2 a \<le> pow2 b"
  by (simp add: pow2_powr)

lemma round_half_even_of_int: "round_half_even (of_int n) = n"
  by (simp add: round_half_even_def)

lemma round_half_even_mono:
  assumes "s \<le> t"
  shows "round_half_even s \<le> round_half_even t"
proof (cases "\<lfloor>s\<rfloor> = \<lfloor>t\<rfloor>")
  case True
  with assms show ?thesis by (auto simp: round_half_even_def Let_def)
next
  case False
  with assms have "\<lfloor>s\<rfloor> + 1 \<le> \<lfloor>t\<rfloor>" using floor_mono [of s t] by linarith
  moreover have "round_half_even s \<le> \<lfloor>s\<rfloor> + 1" by (auto simp: round_half_even_def Let_def)
  moreover have "\<lfloor>t\<rfloor> \<le> round_half_even t" by (auto simp: round_half_even_def Let_def)
  ultimately show ?thesis by linarith
qed

lemma round_half_even_cases:
  obtains "round_half_even t = \<lfloor>t\<rfloor>" "t - of_int \<lfloor>t\<rfloor> \<le> 1 / 2"
  | "round_half_even t = \<lfloor>t\<rfloor> + 1" "1 / 2 \<le> t - of_int \<lfloor>t\<rfloor>"
  unfolding round_half_even_def Let_def
  by (cases "t - of_int \<lfloor>t\<rfloor> < 1 / 2"; cases "1 / 2 < t - of_int \<lfloor>t\<rfloor>"; cases "even \<lfloor>t\<rfloor>") simp_all

lemma round_half_even_error: "\<bar>of_int (round_half_even t) - t\<bar> \<le> 1 / 2"
proof (cases t rule: round_half_even_cases)
  case 1
  have "of_int \<lfloor>t\<rfloor> \<le> t" by simp
  with 1 show ?thesis by simp
next
  case 2
  have "t < of_int \<lfloor>t\<rfloor> + 1" by linarith
  with 2 show ?thesis by simp
qed

lemma round_double_grid: "round_double x = round_to_grid (double_exponent x) x"
  by (simp add: round_double_def)

lemma round_to_grid_mono: "x \<le> y \<Longrightarrow> round_to_grid e x \<le> round_to_grid e y"
  unfolding round_to_grid_def using pow2_pos [of e]
  by (intro mult_right_mono) (simp_all add: round_half_even_mono divide_right_mono)

lemma round_to_grid_fixed:
  assumes "e \<le> k"
  shows "round_to_grid e (of_int n * pow2 k) = of_int n * pow2 k"
proof -
  have k: "pow2 k = pow2 (k - e) * pow2 e"
    using pow2_add [of "k - e" e] by simp
  have "pow2 (k - e) = of_int (2 ^ nat (k - e))"
    using assms by (simp add: pow2_def)
  then have "of_int n * pow2 k / pow2 e = of_int (n * 2 ^ nat (k - e))"
    using pow2_pos [of e] by (simp add: k)
  then have "round_half_even (of_int n * pow2 k / pow2 e) = n * 2 ^ nat (k - e)"
    by (simp only: round_half_even_of_int)
  then show ?thesis
    unfolding round_to_grid_def using \<open>pow2 (k - e) = of_int (2 ^ nat (k - e))\<close>
    by (simp add: k)
qed

lemma round_to_grid_le:
  assumes "e \<le> k" and "x \<le> of_int n * pow2 k"
  shows "round_to_grid e x \<le> of_int n * pow2 k"
  using round_to_grid_mono [OF assms(2), of e] round_to_grid_fixed [OF assms(1), of n] by simp

lemma round_to_grid_ge:
  assumes "e \<le> k" and "of_int n * pow2 k \<le> x"
  shows "of_int n * pow2 k \<le> round_to_grid e x"
  using round_to_grid_mono [OF assms(2), of e] round_to_grid_fixed [OF assms(1), of n] by simp

lemma pow2_floor_log:
  assumes "x \<noteq> 0"
  shows "pow2 \<lfloor>log 2 \<bar>x\<bar>\<rfloor> \<le> \<bar>x\<bar>" and "\<bar>x\<bar> < pow2 (\<lfloor>log 2 \<bar>x\<bar>\<rfloor> + 1)"
proof -
  have "\<lfloor>log 2 \<bar>x\<bar>\<rfloor> = \<lfloor>log 2 \<bar>x\<bar>\<rfloor>" ..
  then have "2 powr real_of_int \<lfloor>log 2 \<bar>x\<bar>\<rfloor> \<le> \<bar>x\<bar> \<and>
             \<bar>x\<bar> < 2 powr real_of_int (\<lfloor>log 2 \<bar>x\<bar>\<rfloor> + 1)"
    using assms floor_log_eq_powr_iff [of "\<bar>x\<bar>" 2 "\<lfloor>log 2 \<bar>x\<bar>\<rfloor>"] by simp
  then show "pow2 \<lfloor>log 2 \<bar>x\<bar>\<rfloor> \<le> \<bar>x\<bar>" and "\<bar>x\<bar> < pow2 (\<lfloor>log 2 \<bar>x\<bar>\<rfloor> + 1)"
    by (simp_all add: pow2_powr)
qed

lemma floor_log_mono:
  assumes "x \<noteq> 0" and "\<bar>x\<bar> \<le> \<bar>y\<bar>"
  shows "\<lfloor>log 2 \<bar>x\<bar>\<rfloor> \<le> \<lfloor>log 2 \<bar>y\<bar>\<rfloor>"
  using assms by (intro floor_mono) simp

lemma double_exponent_le_floor_log:
  "- 1074 < double_exponent x \<Longrightarrow> double_exponent x \<le> \<lfloor>log 2 \<bar>x\<bar>\<rfloor>"
  by (simp add: double_exponent_def max_def split: if_splits)

lemma double_exponent_mono:
  assumes "x \<noteq> 0" and "\<bar>x\<bar> \<le> \<bar>y\<bar>"
  shows "double_exponent x \<le> double_exponent y"
  using floor_log_mono [OF assms] by (simp add: double_exponent_def)

lemma double_exponent_less:
  assumes "double_exponent x < double_exponent y"
  shows "\<lfloor>log 2 \<bar>x\<bar>\<rfloor> < \<lfloor>log 2 \<bar>y\<bar>\<rfloor>" and "- 1074 < double_exponent y"
  using assms by (simp_all add: double_exponent_def max_def split: if_splits)

lemma round_double_zero_le: "x \<le> 0 \<Longrightarrow> round_double x \<le> 0"
  using round_to_grid_le [of "double_exponent x" "double_exponent x" x 0]
  by (simp add: round_double_grid)

lemma round_double_zero_ge: "0 \<le> x \<Longrightarrow> 0 \<le> round_double x"
  using round_to_grid_ge [of "double_exponent x" "double_exponent x" 0 x]
  by (simp add: round_double_grid)

lemma round_double_mono_pos:
  assumes "0 < x" and "x \<le> y"
  shows "round_double x \<le> round_double y"
proof (cases "double_exponent x = double_exponent y")
  case True
  then show ?thesis
    using round_to_grid_mono [OF assms(2)] by (simp add: round_double_grid)
next
  case False
  have "double_exponent x \<le> double_exponent y"
    using assms by (intro double_exponent_mono) simp_all
  with False have lt: "double_exponent x < double_exponent y" by simp
  define Ex where "Ex = \<lfloor>log 2 \<bar>x\<bar>\<rfloor>"
  define Ey where "Ey = \<lfloor>log 2 \<bar>y\<bar>\<rfloor>"
  have E: "Ex < Ey" and n: "- 1074 < double_exponent y"
    using double_exponent_less [OF lt] by (simp_all add: Ex_def Ey_def)
  have ey: "double_exponent y \<le> Ey"
    unfolding Ey_def using n by (rule double_exponent_le_floor_log)
  have ex: "double_exponent x \<le> Ey" using lt ey by simp
  have "x < pow2 (Ex + 1)"
    using pow2_floor_log(2) [of x] assms by (simp add: Ex_def)
  also have "pow2 (Ex + 1) \<le> pow2 Ey" using E by (intro pow2_mono) simp
  finally have xg: "x \<le> of_int 1 * pow2 Ey" by simp
  have gy: "of_int 1 * pow2 Ey \<le> y"
    using pow2_floor_log(1) [of y] assms by (simp add: Ey_def)
  have "round_double x \<le> of_int 1 * pow2 Ey"
    unfolding round_double_grid using ex xg by (rule round_to_grid_le)
  also have "of_int 1 * pow2 Ey \<le> round_double y"
    unfolding round_double_grid using ey gy by (rule round_to_grid_ge)
  finally show ?thesis .
qed

lemma round_double_mono_neg:
  assumes "y < 0" and "x \<le> y"
  shows "round_double x \<le> round_double y"
proof (cases "double_exponent x = double_exponent y")
  case True
  then show ?thesis
    using round_to_grid_mono [OF assms(2)] by (simp add: round_double_grid)
next
  case False
  have "double_exponent y \<le> double_exponent x"
    using assms by (intro double_exponent_mono) simp_all
  with False have lt: "double_exponent y < double_exponent x" by simp
  define Ex where "Ex = \<lfloor>log 2 \<bar>x\<bar>\<rfloor>"
  define Ey where "Ey = \<lfloor>log 2 \<bar>y\<bar>\<rfloor>"
  have E: "Ey < Ex" and n: "- 1074 < double_exponent x"
    using double_exponent_less [OF lt] by (simp_all add: Ex_def Ey_def)
  have ex: "double_exponent x \<le> Ex"
    unfolding Ex_def using n by (rule double_exponent_le_floor_log)
  have ey: "double_exponent y \<le> Ex" using lt ex by simp
  have "pow2 Ex \<le> \<bar>x\<bar>"
    using pow2_floor_log(1) [of x] assms by (simp add: Ex_def)
  then have xg: "x \<le> of_int (- 1) * pow2 Ex" using assms by simp
  have "\<bar>y\<bar> < pow2 (Ey + 1)"
    using pow2_floor_log(2) [of y] assms by (simp add: Ey_def)
  also have "pow2 (Ey + 1) \<le> pow2 Ex" using E by (intro pow2_mono) simp
  finally have gy: "of_int (- 1) * pow2 Ex \<le> y" using assms by simp
  have "round_double x \<le> of_int (- 1) * pow2 Ex"
    unfolding round_double_grid using ex xg by (rule round_to_grid_le)
  also have "of_int (- 1) * pow2 Ex \<le> round_double y"
    unfolding round_double_grid using ey gy by (rule round_to_grid_ge)
  finally show ?thesis .
qed

lemma round_double_mono:
  assumes "x \<le> y"
  shows "round_double x \<le> round_double y"
proof -
  consider "0 < x" | "y < 0" | "x \<le> 0" "0 \<le> y" by linarith
  then show ?thesis
  proof cases
    case 1
    then show ?thesis using assms by (rule round_double_mono_pos)
  next
    case 2
    then show ?thesis using assms by (rule round_double_mono_neg)
  next
    case 3
    then show ?thesis
      using round_double_zero_le [of x] round_double_zero_ge [of y] by simp
  qed
qed

lemma round_double_error: "\<bar>round_double x - x\<bar> \<le> double_ulp x / 2"
proof -
  define p where "p = pow2 (double_exponent x)"
  have p: "0 < p" by (simp add: p_def pow2_pos)
  have "\<bar>of_int (round_half_even (x / p)) - x / p\<bar> * p \<le> 1 / 2 * p"
    using round_half_even_error [of "x / p"] p by (intro mult_right_mono) simp_all
  moreover have "\<bar>of_int (round_half_even (x / p)) - x / p\<bar> * p =
                 \<bar>of_int (round_half_even (x / p)) * p - x\<bar>"
  proof -
    have "(of_int (round_half_even (x / p)) - x / p) * p =
          of_int (round_half_even (x / p)) * p - x"
      using p by (simp add: left_diff_distrib)
    then have "\<bar>of_int (round_half_even (x / p)) * p - x\<bar> =
               \<bar>of_int (round_half_even (x / p)) - x / p\<bar> * \<bar>p\<bar>"
      by (metis abs_mult)
    with p show ?thesis by simp
  qed
  ultimately show ?thesis
    by (simp add: round_double_def round_to_grid_def double_ulp_def p_def)
qed

lemma round_double_exact:
  assumes "x = of_int n * pow2 k" and "- 1074 \<le> k" and "\<bar>n\<bar> < 2 ^ 53"
  shows "round_double x = x"
proof (cases "x = 0")
  case True
  then show ?thesis by (simp add: round_double_def round_to_grid_def round_half_even_def)
next
  case False
  have "pow2 \<lfloor>log 2 \<bar>x\<bar>\<rfloor> \<le> \<bar>x\<bar>" using False by (rule pow2_floor_log(1))
  also have "\<bar>x\<bar> = \<bar>of_int n\<bar> * pow2 k"
    using pow2_pos [of k] by (simp add: assms(1) abs_mult)
  also have "\<dots> < 2 ^ 53 * pow2 k"
    using assms(3) pow2_pos [of k] by (intro mult_strict_right_mono) (simp_all flip: of_int_abs)
  also have "2 ^ 53 * pow2 k = pow2 (53 + k)"
    by (simp add: pow2_add) (simp add: pow2_def)
  finally have "\<lfloor>log 2 \<bar>x\<bar>\<rfloor> < 53 + k"
    by (simp add: pow2_powr)
  then have "double_exponent x \<le> k"
    using assms(2) by (simp add: double_exponent_def)
  then show ?thesis
    unfolding round_double_grid assms(1) by (rule round_to_grid_fixed)
qed

text \<open>The double nearest to \<open>72.5 + 2\<^sup>-\<^sup>4\<^sup>7\<close> is 72.5: a tie, which goes to the even
  multiple of the spacing \<open>2\<^sup>-\<^sup>4\<^sup>6\<close>.\<close>

lemma double_exponent_eq:
  assumes "pow2 E \<le> \<bar>x\<bar>" and "\<bar>x\<bar> < pow2 (E + 1)" and "- 1074 \<le> E - 52"
  shows "double_exponent x = E - 52"
proof -
  have "0 < \<bar>x\<bar>" using assms(1) pow2_pos [of E] by linarith
  then have "\<lfloor>log 2 \<bar>x\<bar>\<rfloor> = E"
    using assms(1,2) floor_log_eq_powr_iff [of "\<bar>x\<bar>" 2 E] by (simp add: pow2_powr)
  then show ?thesis using assms(3) by (simp add: double_exponent_def)
qed

lemma round_tie: "round_double (145 / 2 + 1 / 2 ^ 47) = 145 / 2"
proof -
  have e: "double_exponent (145 / 2 + 1 / 2 ^ 47) = - 46"
    using double_exponent_eq [of 6 "145 / 2 + 1 / 2 ^ 47"] by (simp add: pow2_def)
  have q: "(145 / 2 + 1 / 2 ^ 47) / pow2 (- 46) = of_int (145 * 2 ^ 45) + 1 / 2"
    by (simp add: pow2_def)
  have "round_half_even (of_int (145 * 2 ^ 45) + 1 / 2) = 145 * 2 ^ 45"
    by (simp add: round_half_even_def)
  then show ?thesis
    unfolding round_double_def round_to_grid_def e q by (simp add: pow2_def)
qed

section \<open>The moving average and the bands\<close>

lemma length_window:
  "1 \<le> period \<Longrightarrow> period - 1 \<le> int i \<Longrightarrow> int (length (window values period i)) = period"
  unfolding window_def by (simp del: upt_Suc)

lemma py_slice_window:
  assumes ge: "\<not> int i < period - 1" and il: "i < length values"
  shows "py_slice values (int i - period + 1) (int i + 1) = window values period i"
proof -
  have b: "nat (int i + 1) = i + 1" by linarith
  have "py_slice values (int i - period + 1) (int i + 1) =
        map ((!) values) [nat (int i - period + 1)..<nat (int i + 1)]"
    using ge il by (intro py_slice_nth) simp_all
  then show ?thesis unfolding b by (simp add: window_def)
qed

lemma sma_at_spec:
  assumes p: "1 \<le> period" and il: "i < length values"
  shows "sma_at values period i = Inr (sma_spec values period i)"
proof (cases "int i < period - 1")
  case True
  with il show ?thesis by (simp add: sma_at_def sma_spec_def py_get_def)
next
  case False
  then have "int (length (window values period i)) = period"
    using p by (intro length_window) simp_all
  then have len: "real (length (window values period i)) = real_of_int period"
    by (metis of_int_of_nat_eq)
  show ?thesis
    using False p
    by (simp add: sma_at_def sma_spec_def py_slice_window [OF False il]
        py_truediv_def mean_def len)
qed

lemma calculate_sma_eq:
  assumes "1 \<le> period"
  shows "calculate_sma values period = Inr (map (sma_spec values period) [0..<length values])"
proof -
  have "append_loop (sma_at values period) [0..<length values] [] =
        Inr ([] @ map (sma_spec values period) [0..<length values])"
    using assms by (intro append_loop_Inr sma_at_spec) simp_all
  then show ?thesis by (simp add: calculate_sma_def)
qed

lemma variance_spec_nonneg: "1 \<le> period \<Longrightarrow> 0 \<le> variance_spec values period i"
  by (auto simp: variance_spec_def intro!: divide_nonneg_nonneg sum_list_nonneg)

lemma bands_at_spec:
  assumes p: "1 \<le> period" and il: "i < length values"
    and sma: "sma = map (sma_spec values period) [0..<length values]"
  shows "bands_at values sma period multiplier i =
         Inr (upper_spec values period multiplier i, lower_spec values period multiplier i)"
proof (cases "int i < period - 1")
  case True
  with il show ?thesis
    by (simp add: bands_at_def upper_spec_def lower_spec_def py_get_def)
next
  case False
  define m where "m = sma_spec values period i"
  define v where "v = variance_spec values period i"
  have get: "py_get sma i = Inr m"
    using il by (simp add: py_get_def sma m_def)
  have var: "py_truediv (\<Sum>x\<leftarrow>window values period i. (x - m)\<^sup>2) period = Inr v"
    using p by (simp add: py_truediv_def variance_spec_def m_def v_def)
  have root: "py_pow_half v = Inr (sqrt v)"
    unfolding v_def using variance_spec_nonneg [OF p, of "values" i]
    by (simp add: py_pow_half_def)
  have "bands_at values sma period multiplier i =
        Inr (m + multiplier * sqrt v, m - multiplier * sqrt v)"
    using False by (simp add: bands_at_def py_slice_window [OF False il] get var root)
  then show ?thesis
    using False by (simp add: upper_spec_def lower_spec_def m_def v_def)
qed

lemma calculate_bollinger_bands_eq:
  assumes "1 \<le> period"
  shows "calculate_bollinger_bands values period multiplier =
         Inr (map (upper_spec values period multiplier) [0..<length values],
              map (lower_spec values period multiplier) [0..<length values])"
proof -
  define sma where "sma = map (sma_spec values period) [0..<length values]"
  have "append_loop2 (bands_at values sma period multiplier) [0..<length values] [] [] =
        Inr ([] @ map (upper_spec values period multiplier) [0..<length values],
             [] @ map (lower_spec values period multiplier) [0..<length values])"
    using assms sma_def by (intro append_loop2_Inr bands_at_spec) simp_all
  then show ?thesis
    using calculate_sma_eq [OF assms, of "values"]
    by (simp add: calculate_bollinger_bands_def sma_def)
qed

lemma lower_le_upper:
  assumes "1 \<le> period" and "0 \<le> multiplier"
  shows "lower_spec values period multiplier i \<le> upper_spec values period multiplier i"
proof (cases "int i < period - 1")
  case True
  have "round_double (values ! i - 10) \<le> round_double (values ! i + 10)"
    by (rule round_double_mono) simp
  with True show ?thesis by (simp add: lower_spec_def upper_spec_def)
next
  case False
  have "0 \<le> multiplier * sqrt (variance_spec values period i)"
    using assms variance_spec_nonneg [of period "values" i] by simp
  with False show ?thesis by (simp add: lower_spec_def upper_spec_def)
qed

section \<open>The chart assembly\<close>

lemma rsi_point_at_in_range:
  assumes "i < length rsi_values" "i < length rsi_ma"
    "i < length rsi_upper_bb" "i < length rsi_lower_bb"
  shows "rsi_point_at rsi_values rsi_ma rsi_upper_bb rsi_lower_bb (i, c) =
         Inr \<lparr>rsi_point.timestamp = candle.timestamp c, value = rsi_values ! i,
              ma = rsi_ma ! i, upperBB = rsi_upper_bb ! i, lowerBB = rsi_lower_bb ! i\<rparr>"
  using assms by (simp add: rsi_point_at_def py_get_def)

lemma chart_of_history_aligned:
  "\<exists>rsi_values rsi_ma rsi_upper_bb rsi_lower_bb rsi_data.
     chart_of_history hist = Inr \<lparr>candles = map to_candle hist, rsi = rsi_data\<rparr> \<and>
     calculate_rsi (map close (map to_candle hist)) 14 = Inr rsi_values \<and>
     calculate_sma rsi_values 9 = Inr rsi_ma \<and>
     calculate_bollinger_bands rsi_values 20 2 = Inr (rsi_upper_bb, rsi_lower_bb) \<and>
     length rsi_values = length hist \<and> length rsi_ma = length hist \<and>
     length rsi_upper_bb = length hist \<and> length rsi_lower_bb = length hist \<and>
     length rsi_data = length hist \<and>
     (\<forall>i<length hist.
        rsi_data ! i =
          \<lparr>rsi_point.timestamp = candle.timestamp (to_candle (hist ! i)),
           value = rsi_values ! i, ma = rsi_ma ! i,
           upperBB = rsi_upper_bb ! i, lowerBB = rsi_lower_bb ! i\<rparr>)"
proof -
  define cs where "cs = map to_candle hist"
  define rv where "rv = map (rsi_spec (map close cs) 14) [0..<length hist]"
  define rm where "rm = map (sma_spec rv 9) [0..<length hist]"
  define ru where "ru = map (upper_spec rv 20 2) [0..<length hist]"
  define rl where "rl = map (lower_spec rv 20 2) [0..<length hist]"
  define point where "point = (\<lambda>ic :: nat \<times> candle.
    \<lparr>rsi_point.timestamp = candle.timestamp (snd ic), value = rv ! fst ic,
     ma = rm ! fst ic, upperBB = ru ! fst ic, lowerBB = rl ! fst ic\<rparr>)"
  define rd where "rd = map point (enumerate 0 cs)"
  have len: "length cs = length hist" "length rv = length hist" "length rm = length hist"
    "length ru = length hist" "length rl = length hist" "length rd = length hist"
    by (simp_all add: cs_def rv_def rm_def ru_def rl_def rd_def)
  have rsi: "calculate_rsi (map close cs) 14 = Inr rv"
    by (simp add: calculate_rsi_eq rv_def cs_def)
  have sma: "calculate_sma rv 9 = Inr rm"
    by (simp add: calculate_sma_eq rm_def len)
  have bb: "calculate_bollinger_bands rv 20 2 = Inr (ru, rl)"
    by (simp add: calculate_bollinger_bands_eq ru_def rl_def len)
  have body: "rsi_point_at rv rm ru rl ic = Inr (point ic)" if "ic \<in> set (enumerate 0 cs)" for ic
  proof -
    from that have "fst ic < length hist" by (auto simp: in_set_enumerate_eq len)
    then have "rsi_point_at rv rm ru rl (fst ic, snd ic) = Inr (point ic)"
      unfolding point_def by (intro rsi_point_at_in_range) (simp_all add: len)
    then show ?thesis by simp
  qed
  have loop: "append_loop (rsi_point_at rv rm ru rl) (enumerate 0 cs) [] = Inr ([] @ rd)"
    unfolding rd_def using body by (rule append_loop_Inr)
  have chart: "chart_of_history hist = Inr \<lparr>candles = cs, rsi = rd\<rparr>"
    using rsi sma bb loop by (simp add: chart_of_history_def Let_def cs_def [symmetric])
  have nth: "rd ! i = \<lparr>rsi_point.timestamp = candle.timestamp (to_candle (hist ! i)),
           value = rv ! i, ma = rm ! i, upperBB = ru ! i, lowerBB = rl ! i\<rparr>"
    if "i < length hist" for i
    using that by (simp add: rd_def point_def nth_enumerate_eq len cs_def)
  from chart rsi sma bb len nth show ?thesis
    unfolding cs_def by blast
qed

lemmas fmt_eval = format_symbol_for_yahoo_def indian_exchanges_def common_us_symbols_def
  py_upper_def upper_char_def

section \<open>The claims\<close>

subsection \<open>Relative strength index\<close>

text \<open>
  C1. The RSI contract. For every price sequence and every period, the output at an
  index \<open>i\<close> below the period is 50, and at an index \<open>i\<close> from the period on it is
  computed from the plain rolling means of the gains and of the losses over the delta
  indices \<open>i - period, ..., i - 1\<close>: 100 when the mean loss is zero, and
  \<open>100 - 100 / (1 + avgGain / avgLoss)\<close> otherwise. An input of fewer than
  \<open>period + 1\<close> prices gives 50 everywhere, and fifteen identical closes give
  fourteen times 50 and then 100 at the default period 14.
  With a period that is not positive and a price sequence that is not empty, the
  rolling means are means of an empty slice, for which numpy returns nan: the model's
  \<open>OutsideReals\<close>.
\<close>

theorem calculate_rsi_contract:
  "calculate_rsi prices period =
     (if period \<le> 0 \<and> prices \<noteq> [] then Inl OutsideReals
      else Inr (map (\<lambda>i. if int i < period then 50
                         else
                           let avgGain = rolling_mean (gain prices) period i;
                               avgLoss = rolling_mean (loss prices) period i
                           in if avgLoss = 0 then 100
                              else 100 - 100 / (1 + avgGain / avgLoss))
                  [0..<length prices])) \<and>
   (int (length prices) < period + 1 \<longrightarrow>
      calculate_rsi prices period = Inr (replicate (length prices) 50)) \<and>
   calculate_rsi (replicate 15 c) 14 = Inr (replicate 14 50 @ [100])"
proof (intro conjI impI)
  have "rsi_spec prices period =
        (\<lambda>i. if int i < period then 50
              else
                let avgGain = rolling_mean (gain prices) period i;
                    avgLoss = rolling_mean (loss prices) period i
                in if avgLoss = 0 then 100 else 100 - 100 / (1 + avgGain / avgLoss))"
    by (rule ext) (simp add: rsi_spec_def)
  then show "calculate_rsi prices period =
     (if period \<le> 0 \<and> prices \<noteq> [] then Inl OutsideReals
      else Inr (map (\<lambda>i. if int i < period then 50
                         else
                           let avgGain = rolling_mean (gain prices) period i;
                               avgLoss = rolling_mean (loss prices) period i
                           in if avgLoss = 0 then 100
                              else 100 - 100 / (1 + avgGain / avgLoss))
                  [0..<length prices]))"
    using calculate_rsi_eq [of prices period] by simp
next
  assume "int (length prices) < period + 1"
  then show "calculate_rsi prices period = Inr (replicate (length prices) 50)"
    by (simp add: calculate_rsi_def)
next
  have "map (rsi_spec (replicate 15 c) 14) [0..<15] = replicate 14 50 @ [100]"
  proof (rule nth_equalityI)
    show "length (map (rsi_spec (replicate 15 c) 14) [0..<15]) = length (replicate 14 50 @ [100 :: real])"
      by simp
  next
    fix i
    assume "i < length (map (rsi_spec (replicate 15 c) 14) [0..<15])"
    then have i: "i < 15" by simp
    show "map (rsi_spec (replicate 15 c) 14) [0..<15] ! i = (replicate 14 50 @ [100]) ! i"
    proof (cases "i < 14")
      case True
      then show ?thesis using i by (simp add: rsi_spec_def nth_append)
    next
      case False
      with i have "i = 14" by simp
      then show ?thesis
        using rsi_spec_constant [of 14 14 15 c] by (simp add: nth_append)
    qed
  qed
  then show "calculate_rsi (replicate 15 c) 14 = Inr (replicate 14 50 @ [100])"
    by (simp add: calculate_rsi_eq)
qed

theorem calculate_rsi_contract_witness:
  "int (length [1, 3, 2 :: real]) < 14 + 1 \<and>
   calculate_rsi [1, 3, 2] 14 = Inr [50, 50, 50] \<and>
   calculate_rsi [1, 3, 2] 2 = Inr [50, 50, 200 / 3]"
proof -
  have a: "int (length [1, 3, 2 :: real]) < 14 + 1" by simp
  have b: "calculate_rsi [1, 3, 2] 14 = Inr [50, 50, 50]"
    using calculate_rsi_contract [of "[1, 3, 2]" 14] a by (simp add: numeral_3_eq_3)
  have u: "[0..<length [1, 3, 2 :: real]] = [0, 1, 2]"
    by (simp add: upt_rec)
  have c: "calculate_rsi [1, 3, 2] 2 = Inr [50, 50, 200 / 3]"
    using calculate_rsi_contract [of "[1, 3, 2]" 2]
    unfolding u
    by (simp add: rolling_mean_def gain_def loss_def delta_def upt_rec)
  from a b c show ?thesis by blast
qed

text \<open>
  C2. For every price sequence (and every period from 1 on, the default 14 among them)
  the RSI output is as long as the input and each of its values lies between 0 and 100.
  The witness runs the loop behind the guard: three prices at period 2, once falling
  (the last value is 0) and once rising and falling (the last value is 200/3).
\<close>

theorem calculate_rsi_length_range:
  assumes "1 \<le> period"
  shows "\<exists>out. calculate_rsi prices period = Inr out \<and> length out = length prices \<and>
           (\<forall>v\<in>set out. 0 \<le> v \<and> v \<le> 100)"
proof -
  have "calculate_rsi prices period = Inr (map (rsi_spec prices period) [0..<length prices])"
    using assms by (simp add: calculate_rsi_eq)
  moreover have "\<forall>v\<in>set (map (rsi_spec prices period) [0..<length prices]). 0 \<le> v \<and> v \<le> 100"
    using rsi_spec_range [OF assms] by auto
  ultimately show ?thesis by simp
qed

theorem calculate_rsi_length_range_witness:
  "(1 :: int) \<le> 2 \<and>
   calculate_rsi [5, 4, 3] 2 = Inr [50, 50, 0] \<and>
   calculate_rsi [1, 3, 2] 2 = Inr [50, 50, 200 / 3] \<and>
   (\<exists>out. calculate_rsi [5, 4, 3] 2 = Inr out \<and> length out = length [5, 4, 3 :: real] \<and>
           (\<forall>v\<in>set out. 0 \<le> v \<and> v \<le> 100)) \<and>
   (\<exists>out. calculate_rsi [1, 3, 2] 2 = Inr out \<and> length out = length [1, 3, 2 :: real] \<and>
           (\<forall>v\<in>set out. 0 \<le> v \<and> v \<le> 100))"
proof -
  have h: "(1 :: int) \<le> 2" by simp
  have u: "[0..<length [5, 4, 3 :: real]] = [0, 1, 2]" "[0..<length [1, 3, 2 :: real]] = [0, 1, 2]"
    by (simp_all add: upt_rec)
  have a: "calculate_rsi [5, 4, 3] 2 = Inr [50, 50, 0]"
    unfolding calculate_rsi_eq u
    by (simp add: rsi_spec_def rolling_mean_def gain_def loss_def delta_def upt_rec)
  have b: "calculate_rsi [1, 3, 2] 2 = Inr [50, 50, 200 / 3]"
    unfolding calculate_rsi_eq u
    by (simp add: rsi_spec_def rolling_mean_def gain_def loss_def delta_def upt_rec)
  from h a b calculate_rsi_length_range [OF h, of "[5, 4, 3]"]
    calculate_rsi_length_range [OF h, of "[1, 3, 2]"]
  show ?thesis by blast
qed

subsection \<open>Simple moving average\<close>

text \<open>
  C3. The SMA contract. For every value sequence and every period from 1 on, the output
  is as long as the input; at an index \<open>i < period - 1\<close> it is the input value
  \<open>values[i]\<close> itself, and at an index \<open>i \<ge> period - 1\<close> it is the arithmetic mean of
  the trailing window \<open>values[i - period + 1 .. i]\<close>, which holds \<open>period\<close> values.
\<close>

theorem calculate_sma_contract:
  assumes "1 \<le> period"
  shows "\<exists>out. calculate_sma values period = Inr out \<and> length out = length values \<and>
           (\<forall>i<length values. int i < period - 1 \<longrightarrow> out ! i = values ! i) \<and>
           (\<forall>i<length values. period - 1 \<le> int i \<longrightarrow>
              int (length (window values period i)) = period \<and>
              out ! i = mean (window values period i))"
proof -
  have "calculate_sma values period = Inr (map (sma_spec values period) [0..<length values])"
    using assms by (rule calculate_sma_eq)
  moreover have "int (length (window values period i)) = period" if "period - 1 \<le> int i" for i
    using assms that by (rule length_window)
  ultimately show ?thesis by (simp add: sma_spec_def)
qed

theorem calculate_sma_contract_witness:
  "(1 :: int) \<le> 2 \<and> calculate_sma [1, 2, 4] 2 = Inr [1, 3 / 2, 3]"
proof -
  have h: "(1 :: int) \<le> 2" by simp
  obtain out where o: "calculate_sma [1, 2, 4] 2 = Inr out" "length out = length [1, 2, 4 :: real]"
    "\<forall>i<length [1, 2, 4 :: real]. int i < 2 - 1 \<longrightarrow> out ! i = [1, 2, 4] ! i"
    "\<forall>i<length [1, 2, 4 :: real]. 2 - 1 \<le> int i \<longrightarrow>
        int (length (window [1, 2, 4] 2 i)) = 2 \<and> out ! i = mean (window [1, 2, 4] 2 i)"
    using calculate_sma_contract [OF h, of "[1, 2, 4]"] by blast
  from o(2) obtain a b c where abc: "out = [a, b, c]"
    by (auto simp: length_Suc_conv numeral_3_eq_3)
  from o(3) [rule_format, of 0] abc have a: "a = 1" by simp
  from o(4) [rule_format, of 1] abc have b: "b = 3 / 2"
    by (simp add: window_def mean_def upt_rec)
  from o(4) [rule_format, of 2] abc have c: "c = 3"
    by (simp add: window_def mean_def upt_rec)
  from h o(1) abc a b c show ?thesis by simp
qed

subsection \<open>Bollinger bands\<close>

text \<open>
  C4, as the code has it. The Bollinger bands contract. For every value sequence, every
  period from 1 on and every multiplier, both bands are as long as the input. At an
  index \<open>i < period - 1\<close> the upper band is \<open>values[i] + 10\<close> and the lower band is
  \<open>values[i] - 10\<close>, each sum rounded to the nearest double, so that their difference
  is 20 up to this rounding: within half a spacing of the doubles at each sum. At an
  index \<open>i \<ge> period - 1\<close>, with the moving average \<open>SMA(values, period)[i]\<close> as the
  mean, the variance is the sum of the squared deviations of the trailing window from
  the mean over \<open>period\<close>, the standard deviation is its square root, and the bands are
  the mean plus and minus the multiplier times the standard deviation.
\<close>

theorem calculate_bollinger_bands_contract:
  assumes "1 \<le> period"
  shows "\<exists>upper lower sma.
           calculate_bollinger_bands values period multiplier = Inr (upper, lower) \<and>
           calculate_sma values period = Inr sma \<and>
           length upper = length values \<and> length lower = length values \<and>
           (\<forall>i<length values. int i < period - 1 \<longrightarrow>
              upper ! i = round_double (values ! i + 10) \<and>
              lower ! i = round_double (values ! i - 10) \<and>
              \<bar>upper ! i - lower ! i - 20\<bar> \<le>
                (double_ulp (values ! i + 10) + double_ulp (values ! i - 10)) / 2) \<and>
           (\<forall>i<length values. period - 1 \<le> int i \<longrightarrow>
              (let mean = sma ! i;
                   variance = (\<Sum>x\<leftarrow>window values period i. (x - mean)\<^sup>2) / real_of_int period;
                   stdDev = sqrt variance
               in upper ! i = mean + multiplier * stdDev \<and>
                  lower ! i = mean - multiplier * stdDev))"
proof -
  define upper where "upper = map (upper_spec values period multiplier) [0..<length values]"
  define lower where "lower = map (lower_spec values period multiplier) [0..<length values]"
  define sma where "sma = map (sma_spec values period) [0..<length values]"
  have bb: "calculate_bollinger_bands values period multiplier = Inr (upper, lower)"
    unfolding upper_def lower_def using assms by (rule calculate_bollinger_bands_eq)
  have s: "calculate_sma values period = Inr sma"
    unfolding sma_def using assms by (rule calculate_sma_eq)
  have len: "length upper = length values" "length lower = length values"
    by (simp_all add: upper_def lower_def)
  have warm: "upper ! i = round_double (values ! i + 10) \<and>
              lower ! i = round_double (values ! i - 10) \<and>
              \<bar>upper ! i - lower ! i - 20\<bar> \<le>
                (double_ulp (values ! i + 10) + double_ulp (values ! i - 10)) / 2"
    if "i < length values" "int i < period - 1" for i
  proof -
    have u: "upper ! i = round_double (values ! i + 10)"
      and l: "lower ! i = round_double (values ! i - 10)"
      using that by (simp_all add: upper_def lower_def upper_spec_def lower_spec_def)
    have "\<bar>round_double (values ! i + 10) - round_double (values ! i - 10) - 20\<bar> \<le>
        \<bar>round_double (values ! i + 10) - (values ! i + 10)\<bar> +
        \<bar>round_double (values ! i - 10) - (values ! i - 10)\<bar>"
      by linarith
    also have "\<dots> \<le> double_ulp (values ! i + 10) / 2 + double_ulp (values ! i - 10) / 2"
      by (intro add_mono round_double_error)
    also have "\<dots> = (double_ulp (values ! i + 10) + double_ulp (values ! i - 10)) / 2"
      by (simp add: add_divide_distrib)
    finally have "\<bar>round_double (values ! i + 10) - round_double (values ! i - 10) - 20\<bar> \<le>
               (double_ulp (values ! i + 10) + double_ulp (values ! i - 10)) / 2" .
    with u l show ?thesis by simp
  qed
  have steady: "let mean = sma ! i;
                    variance = (\<Sum>x\<leftarrow>window values period i. (x - mean)\<^sup>2) / real_of_int period;
                    stdDev = sqrt variance
                in upper ! i = mean + multiplier * stdDev \<and>
                   lower ! i = mean - multiplier * stdDev"
    if "i < length values" "period - 1 \<le> int i" for i
    using that
    by (simp add: upper_def lower_def sma_def upper_spec_def lower_spec_def variance_spec_def)
  from bb s len warm steady show ?thesis by blast
qed

theorem calculate_bollinger_bands_contract_witness:
  "(1 :: int) \<le> 2 \<and> calculate_bollinger_bands [1, 3] 2 2 = Inr ([11, 4], [- 9, 0])"
proof -
  have h: "(1 :: int) \<le> 2" by simp
  obtain upper lower sma where o:
    "calculate_bollinger_bands [1, 3] 2 2 = Inr (upper, lower)"
    "calculate_sma [1, 3] 2 = Inr sma"
    "length upper = length [1, 3 :: real]" "length lower = length [1, 3 :: real]"
    "\<forall>i<length [1, 3 :: real]. int i < 2 - 1 \<longrightarrow>
         upper ! i = round_double ([1, 3] ! i + 10) \<and>
         lower ! i = round_double ([1, 3] ! i - 10) \<and>
         \<bar>upper ! i - lower ! i - 20\<bar> \<le>
           (double_ulp ([1, 3] ! i + 10) + double_ulp ([1, 3] ! i - 10)) / 2"
    "\<forall>i<length [1, 3 :: real]. 2 - 1 \<le> int i \<longrightarrow>
         (let mean = sma ! i;
              variance = (\<Sum>x\<leftarrow>window [1, 3] 2 i. (x - mean)\<^sup>2) / real_of_int 2;
              stdDev = sqrt variance
          in upper ! i = mean + 2 * stdDev \<and> lower ! i = mean - 2 * stdDev)"
    using calculate_bollinger_bands_contract [OF h, of "[1, 3]" 2] by blast
  have r11: "round_double 11 = 11"
    by (rule round_double_exact [of _ 11 0]) (simp_all add: pow2_def)
  have r9: "round_double (- 9) = - 9"
    by (rule round_double_exact [of _ "- 9" 0]) (simp_all add: pow2_def)
  note r = r11 r9
  have "calculate_sma [1, 3] 2 = Inr (map (sma_spec [1, 3] 2) [0..<length [1, 3 :: real]])"
    using h by (rule calculate_sma_eq)
  with o(2) have sma: "sma ! 1 = 2"
    by (auto simp: sma_spec_def window_def mean_def upt_rec)
  from o(3) obtain u0 u1 where u: "upper = [u0, u1]"
    by (auto simp: length_Suc_conv numeral_2_eq_2)
  from o(4) obtain l0 l1 where l: "lower = [l0, l1]"
    by (auto simp: length_Suc_conv numeral_2_eq_2)
  from o(5) [rule_format, of 0] u l r have w: "u0 = 11" "l0 = - 9" by simp_all
  from o(6) [rule_format, of 1] u l sma have s: "u1 = 4" "l1 = 0"
    by (simp_all add: window_def upt_rec Let_def power2_eq_square)
  from h o(1) u l w s show ?thesis by simp
qed

text \<open>
  The difference of the warm-up bands is not always 20. The value 62.50000000000001 is
  the double \<open>62.5 + 2\<^sup>-\<^sup>4\<^sup>7\<close>; the sum with 10 is rounded to 72.5, the difference with
  10 is the double \<open>52.5 + 2\<^sup>-\<^sup>4\<^sup>7\<close>, and the difference of the two bands is the
  double \<open>20 - 2\<^sup>-\<^sup>4\<^sup>7\<close>, which Python prints as 19.999999999999993.
\<close>

theorem bollinger_width_counterexample:
  "calculate_bollinger_bands [125 / 2 + 1 / 2 ^ 47] 2 2 =
     Inr ([145 / 2], [105 / 2 + 1 / 2 ^ 47]) \<and>
   round_double (145 / 2 - (105 / 2 + 1 / 2 ^ 47)) = 20 - 1 / 2 ^ 47 \<and>
   \<not> (\<exists>upper lower.
        calculate_bollinger_bands [125 / 2 + 1 / 2 ^ 47] 2 2 = Inr (upper, lower) \<and>
        upper ! 0 - lower ! 0 = 20)"
proof -
  define v :: real where "v = 125 / 2 + 1 / 2 ^ 47"
  have up: "round_double (v + 10) = 145 / 2"
    using round_tie by (simp add: v_def)
  have "round_double (105 / 2 + 1 / 2 ^ 47) = 105 / 2 + 1 / 2 ^ 47"
    by (rule round_double_exact [of _ "105 * 2 ^ 46 + 1" "- 47"]) (simp_all add: pow2_def)
  then have low: "round_double (v - 10) = 105 / 2 + 1 / 2 ^ 47"
    by (simp add: v_def)
  have "calculate_bollinger_bands [v] 2 2 =
        Inr (map (upper_spec [v] 2 2) [0..<length [v]], map (lower_spec [v] 2 2) [0..<length [v]])"
    by (rule calculate_bollinger_bands_eq) simp
  then have bb: "calculate_bollinger_bands [v] 2 2 = Inr ([145 / 2], [105 / 2 + 1 / 2 ^ 47])"
    by (simp add: upper_spec_def lower_spec_def up low)
  have "round_double (20 - 1 / 2 ^ 47) = 20 - 1 / 2 ^ 47"
    by (rule round_double_exact [of _ "20 * 2 ^ 47 - 1" "- 47"]) (simp_all add: pow2_def)
  then have width: "round_double (145 / 2 - (105 / 2 + 1 / 2 ^ 47)) = 20 - 1 / 2 ^ 47"
    by simp
  have no: "\<not> (\<exists>upper lower.
        calculate_bollinger_bands [v] 2 2 = Inr (upper, lower) \<and> upper ! 0 - lower ! 0 = 20)"
    unfolding bb by simp
  from bb width no show ?thesis
    unfolding v_def by blast
qed

text \<open>
  C10. The bands never cross: for every value sequence, every period from 1 on and every
  multiplier that is not negative, the lower band is at most the upper band at every
  index.
\<close>

theorem bollinger_bands_ordered:
  assumes "1 \<le> period" and "0 \<le> multiplier"
  shows "\<exists>upper lower.
           calculate_bollinger_bands values period multiplier = Inr (upper, lower) \<and>
           length upper = length values \<and> length lower = length values \<and>
           (\<forall>i<length values. lower ! i \<le> upper ! i)"
proof -
  have "calculate_bollinger_bands values period multiplier =
        Inr (map (upper_spec values period multiplier) [0..<length values],
             map (lower_spec values period multiplier) [0..<length values])"
    using assms(1) by (rule calculate_bollinger_bands_eq)
  then show ?thesis
    using lower_le_upper [OF assms] by simp
qed

theorem bollinger_bands_ordered_witness:
  "(1 :: int) \<le> 2 \<and> (0 :: real) \<le> 2 \<and>
   (\<exists>upper lower.
      calculate_bollinger_bands [1, 3, 2] 2 2 = Inr (upper, lower) \<and>
      length upper = length [1, 3, 2 :: real] \<and> length lower = length [1, 3, 2 :: real] \<and>
      (\<forall>i<length [1, 3, 2 :: real]. lower ! i \<le> upper ! i))"
proof -
  have h: "(1 :: int) \<le> 2" and m: "(0 :: real) \<le> 2" by simp_all
  from h m bollinger_bands_ordered [OF h m, of "[1, 3, 2]"] show ?thesis
    by blast
qed

subsection \<open>Chart assembly\<close>

text \<open>
  C5. Alignment of the chart. When the provider returns rows and at least one of them,
  the chart is assembled, its \<open>rsi\<close> sequence is as long as its candles, and entry \<open>i\<close>
  carries the timestamp of candle \<open>i\<close> with the values at index \<open>i\<close> of the RSI of
  the closes at period 14, of the SMA of these RSI values at period 9, and of the
  Bollinger bands of these RSI values at period 20 and multiplier 2.
  The witness is a reply of sixteen rows with the closes 100, 105 and fourteen times
  102: the last two RSI values and moving averages are computed ones, and every entry
  has its own timestamp.
\<close>

theorem chart_alignment:
  assumes "history (format_symbol_for_yahoo symbol) (snd (get_timeframe_period timeframe))
             (fst (get_timeframe_period timeframe)) = Returns hist"
    and "hist \<noteq> []"
  shows "\<exists>chart rsi_values rsi_ma rsi_upper_bb rsi_lower_bb.
           fetch_chart_data history symbol timeframe = Inr (Some chart) \<and>
           candles chart = map to_candle hist \<and>
           calculate_rsi (map close (candles chart)) 14 = Inr rsi_values \<and>
           calculate_sma rsi_values 9 = Inr rsi_ma \<and>
           calculate_bollinger_bands rsi_values 20 2 = Inr (rsi_upper_bb, rsi_lower_bb) \<and>
           length (rsi chart) = length (candles chart) \<and>
           length rsi_values = length (candles chart) \<and>
           length rsi_ma = length (candles chart) \<and>
           length rsi_upper_bb = length (candles chart) \<and>
           length rsi_lower_bb = length (candles chart) \<and>
           (\<forall>i<length (candles chart).
              rsi chart ! i =
                \<lparr>rsi_point.timestamp = candle.timestamp (candles chart ! i),
                 value = rsi_values ! i, ma = rsi_ma ! i,
                 upperBB = rsi_upper_bb ! i, lowerBB = rsi_lower_bb ! i\<rparr>)"
proof -
  obtain rsi_values rsi_ma rsi_upper_bb rsi_lower_bb rsi_data where c:
    "chart_of_history hist = Inr \<lparr>candles = map to_candle hist, rsi = rsi_data\<rparr>"
    "calculate_rsi (map close (map to_candle hist)) 14 = Inr rsi_values"
    "calculate_sma rsi_values 9 = Inr rsi_ma"
    "calculate_bollinger_bands rsi_values 20 2 = Inr (rsi_upper_bb, rsi_lower_bb)"
    "length rsi_values = length hist" "length rsi_ma = length hist"
    "length rsi_upper_bb = length hist" "length rsi_lower_bb = length hist"
    "length rsi_data = length hist"
    "\<forall>i<length hist.
        rsi_data ! i =
          \<lparr>rsi_point.timestamp = candle.timestamp (to_candle (hist ! i)),
           value = rsi_values ! i, ma = rsi_ma ! i,
           upperBB = rsi_upper_bb ! i, lowerBB = rsi_lower_bb ! i\<rparr>"
    using chart_of_history_aligned [of hist] by blast
  define chart where "chart = \<lparr>candles = map to_candle hist, rsi = rsi_data\<rparr>"
  have f: "fetch_chart_data history symbol timeframe = Inr (Some chart)"
    using assms c(1) by (simp add: fetch_chart_data_def Let_def split_def chart_def)
  have cs: "candles chart = map to_candle hist" and rs: "rsi chart = rsi_data"
    by (simp_all add: chart_def)
  have n: "rsi chart ! i =
        \<lparr>rsi_point.timestamp = candle.timestamp (candles chart ! i),
         value = rsi_values ! i, ma = rsi_ma ! i,
         upperBB = rsi_upper_bb ! i, lowerBB = rsi_lower_bb ! i\<rparr>"
    if "i < length (candles chart)" for i
    using that c(10) by (simp add: cs rs)
  from f cs c(2-9) n show ?thesis
    unfolding cs rs by (intro exI [of _ chart] exI [of _ rsi_values] exI [of _ rsi_ma]
        exI [of _ rsi_upper_bb] exI [of _ rsi_lower_bb]) (simp add: cs rs)
qed

theorem chart_alignment_witness:
  "\<exists>chart.
     fetch_chart_data
       (\<lambda>s p i. Returns
          (map (\<lambda>(t, c). \<lparr>index_timestamp = t, Open = c, High = c, Low = c, Close = c, Volume = 7\<rparr>)
          [(1, 100), (2, 105), (3, 102), (4, 102), (5, 102), (6, 102), (7, 102), (8, 102), (9, 102), (10, 102), (11, 102), (12, 102), (13, 102), (14, 102), (15, 102), (16, 102)]))
       ''TCS'' ''1d'' = Inr (Some chart) \<and>
     map candle.timestamp (candles chart) =
       [1000, 2000, 3000, 4000, 5000, 6000, 7000, 8000, 9000, 10000, 11000, 12000, 13000, 14000, 15000, 16000] \<and>
     map rsi_point.timestamp (rsi chart) =
       [1000, 2000, 3000, 4000, 5000, 6000, 7000, 8000, 9000, 10000, 11000, 12000, 13000, 14000, 15000, 16000] \<and>
     map value (rsi chart) = [50, 50, 50, 50, 50, 50, 50, 50, 50, 50, 50, 50, 50, 50, 125 / 2, 0] \<and>
     map ma (rsi chart) = [50, 50, 50, 50, 50, 50, 50, 50, 50, 50, 50, 50, 50, 50, 925 / 18, 275 / 6] \<and>
     map upperBB (rsi chart) = [60, 60, 60, 60, 60, 60, 60, 60, 60, 60, 60, 60, 60, 60, 145 / 2, 10] \<and>
     map lowerBB (rsi chart) = [40, 40, 40, 40, 40, 40, 40, 40, 40, 40, 40, 40, 40, 40, 105 / 2, - 10]"
proof -
  define rows where "rows =
    (map (\<lambda>(t, c). \<lparr>index_timestamp = t, Open = c, High = c, Low = c, Close = c, Volume = 7\<rparr>)
          [(1, 100), (2, 105), (3, 102), (4, 102), (5, 102), (6, 102), (7, 102), (8, 102), (9, 102), (10, 102), (11, 102), (12, 102), (13, 102), (14, 102), (15, 102), (16, 102)])"
  define history where "history = (\<lambda>(s :: string) (p :: string) (i :: string). Returns rows)"
  define closes :: "real list" where "closes = [100, 105, 102, 102, 102, 102, 102, 102, 102, 102, 102, 102, 102, 102, 102, 102]"
  have h1: "history (format_symbol_for_yahoo ''TCS'') (snd (get_timeframe_period ''1d''))
              (fst (get_timeframe_period ''1d'')) = Returns rows"
    by (simp add: history_def)
  have h2: "rows \<noteq> []" by (simp add: rows_def)
  obtain chart rsi_values rsi_ma rsi_upper_bb rsi_lower_bb where c:
    "fetch_chart_data history ''TCS'' ''1d'' = Inr (Some chart)"
    "candles chart = map to_candle rows"
    "calculate_rsi (map close (candles chart)) 14 = Inr rsi_values"
    "calculate_sma rsi_values 9 = Inr rsi_ma"
    "calculate_bollinger_bands rsi_values 20 2 = Inr (rsi_upper_bb, rsi_lower_bb)"
    "length (rsi chart) = length (candles chart)"
    "length rsi_values = length (candles chart)"
    "length rsi_ma = length (candles chart)"
    "length rsi_upper_bb = length (candles chart)"
    "length rsi_lower_bb = length (candles chart)"
    "\<forall>i<length (candles chart).
        rsi chart ! i =
          \<lparr>rsi_point.timestamp = candle.timestamp (candles chart ! i),
           value = rsi_values ! i, ma = rsi_ma ! i,
           upperBB = rsi_upper_bb ! i, lowerBB = rsi_lower_bb ! i\<rparr>"
    using chart_alignment [of history "''TCS''" "''1d''" rows, OF h1 h2] by blast
  have n: "length (candles chart) = 16"
    by (simp add: c(2) rows_def)
  have idx: "[0..<16] = [0, 1, 2, 3, 4, 5, 6, 7, 8, 9, 10, 11, 12, 13, 14, 15 :: nat]"
    by (simp add: upt_rec)
  have ts: "map candle.timestamp (candles chart) =
      [1000, 2000, 3000, 4000, 5000, 6000, 7000, 8000, 9000, 10000, 11000, 12000, 13000, 14000, 15000, 16000]"
    by (simp add: c(2) rows_def to_candle_def py_int_def)
  have cl: "map close (candles chart) = closes"
    by (simp add: c(2) rows_def to_candle_def closes_def)
  have lc: "length closes = 16" by (simp add: closes_def)
  have "calculate_rsi closes 14 = Inr (map (rsi_spec closes 14) [0..<16])"
    by (simp add: calculate_rsi_eq lc)
  also have "map (rsi_spec closes 14) [0..<16] = [50, 50, 50, 50, 50, 50, 50, 50, 50, 50, 50, 50, 50, 50, 125 / 2, 0]"
    unfolding idx
    by (simp add: rsi_spec_def rolling_mean_def gain_def loss_def delta_def closes_def upt_rec)
  finally have rv: "rsi_values = [50, 50, 50, 50, 50, 50, 50, 50, 50, 50, 50, 50, 50, 50, 125 / 2, 0]"
    using c(3) by (simp add: cl)
  have lr: "length rsi_values = 16" by (simp add: rv)
  have "calculate_sma rsi_values 9 = Inr (map (sma_spec rsi_values 9) [0..<16])"
    by (simp add: calculate_sma_eq lr)
  also have "map (sma_spec rsi_values 9) [0..<16] = [50, 50, 50, 50, 50, 50, 50, 50, 50, 50, 50, 50, 50, 50, 925 / 18, 275 / 6]"
    unfolding idx by (simp add: sma_spec_def window_def mean_def rv upt_rec)
  finally have rm: "rsi_ma = [50, 50, 50, 50, 50, 50, 50, 50, 50, 50, 50, 50, 50, 50, 925 / 18, 275 / 6]"
    using c(4) by simp
  have r60: "round_double 60 = 60"
    by (rule round_double_exact [of _ 60 0]) (simp_all add: pow2_def)
  have r40: "round_double 40 = 40"
    by (rule round_double_exact [of _ 40 0]) (simp_all add: pow2_def)
  have r72: "round_double (145 / 2) = 145 / 2"
    by (rule round_double_exact [of _ 145 "- 1"]) (simp_all add: pow2_def)
  have r52: "round_double (105 / 2) = 105 / 2"
    by (rule round_double_exact [of _ 105 "- 1"]) (simp_all add: pow2_def)
  have r10: "round_double 10 = 10"
    by (rule round_double_exact [of _ 10 0]) (simp_all add: pow2_def)
  have r10': "round_double (- 10) = - 10"
    by (rule round_double_exact [of _ "- 10" 0]) (simp_all add: pow2_def)
  note r = r60 r40 r72 r52 r10 r10'
  have "calculate_bollinger_bands rsi_values 20 2 =
        Inr (map (upper_spec rsi_values 20 2) [0..<16], map (lower_spec rsi_values 20 2) [0..<16])"
    using calculate_bollinger_bands_eq [of 20 rsi_values 2] by (simp add: lr)
  moreover have "map (upper_spec rsi_values 20 2) [0..<16] = [60, 60, 60, 60, 60, 60, 60, 60, 60, 60, 60, 60, 60, 60, 145 / 2, 10]"
    unfolding idx by (simp add: upper_spec_def rv r)
  moreover have "map (lower_spec rsi_values 20 2) [0..<16] = [40, 40, 40, 40, 40, 40, 40, 40, 40, 40, 40, 40, 40, 40, 105 / 2, - 10]"
    unfolding idx by (simp add: lower_spec_def rv r)
  ultimately have bb: "rsi_upper_bb = [60, 60, 60, 60, 60, 60, 60, 60, 60, 60, 60, 60, 60, 60, 145 / 2, 10]"
    "rsi_lower_bb = [40, 40, 40, 40, 40, 40, 40, 40, 40, 40, 40, 40, 40, 40, 105 / 2, - 10]"
    using c(5) by simp_all
  have pt: "map rsi_point.timestamp (rsi chart) = map candle.timestamp (candles chart)"
    using c(6) c(11) by (intro nth_equalityI) simp_all
  have pv: "map value (rsi chart) = rsi_values"
    using c(6) c(7) c(11) by (intro nth_equalityI) simp_all
  have pm: "map ma (rsi chart) = rsi_ma"
    using c(6) c(8) c(11) by (intro nth_equalityI) simp_all
  have pu: "map upperBB (rsi chart) = rsi_upper_bb"
    using c(6) c(9) c(11) by (intro nth_equalityI) simp_all
  have pl: "map lowerBB (rsi chart) = rsi_lower_bb"
    using c(6) c(10) c(11) by (intro nth_equalityI) simp_all
  from c(1) ts pt pv pm pu pl rv rm bb show ?thesis
    unfolding history_def rows_def by (intro exI [of _ chart]) simp
qed

text \<open>
  C6. Errors of the chart. When the provider returns no rows the result is \<open>None\<close>, and
  when the provider call raises the result is \<open>None\<close> as well. No call ends in an
  error, and a chart that is returned has at least one candle.
\<close>

theorem fetch_chart_data_not_found:
  "(history (format_symbol_for_yahoo symbol) (snd (get_timeframe_period timeframe))
      (fst (get_timeframe_period timeframe)) = Returns [] \<longrightarrow>
    fetch_chart_data history symbol timeframe = Inr None) \<and>
   (history (format_symbol_for_yahoo symbol) (snd (get_timeframe_period timeframe))
      (fst (get_timeframe_period timeframe)) = Raises \<longrightarrow>
    fetch_chart_data history symbol timeframe = Inr None) \<and>
   (\<exists>r. fetch_chart_data history symbol timeframe = Inr r) \<and>
   (\<forall>chart. fetch_chart_data history symbol timeframe = Inr (Some chart) \<longrightarrow>
      candles chart \<noteq> [])"
proof -
  define reply where "reply = history (format_symbol_for_yahoo symbol)
    (snd (get_timeframe_period timeframe)) (fst (get_timeframe_period timeframe))"
  have f: "fetch_chart_data history symbol timeframe =
           (case reply of
              Raises \<Rightarrow> Inr None
            | Returns hist \<Rightarrow> if hist = [] then Inr None else except_Exception (chart_of_history hist))"
    by (simp add: fetch_chart_data_def Let_def split_def reply_def)
  show ?thesis
  proof (cases reply)
    case Raises
    then show ?thesis unfolding reply_def [symmetric] f by simp
  next
    case (Returns hist)
    show ?thesis
    proof (cases "hist = []")
      case True
      with Returns show ?thesis unfolding reply_def [symmetric] f by simp
    next
      case False
      obtain rsi_data where
        "chart_of_history hist = Inr \<lparr>candles = map to_candle hist, rsi = rsi_data\<rparr>"
        using chart_of_history_aligned [of hist] by blast
      with Returns False show ?thesis unfolding reply_def [symmetric] f by auto
    qed
  qed
qed

theorem fetch_chart_data_not_found_witness:
  "fetch_chart_data (\<lambda>s p i. Returns []) ''TCS'' ''1d'' = Inr None \<and>
   fetch_chart_data (\<lambda>s p i. Raises) ''TCS'' ''1d'' = Inr None"
  using fetch_chart_data_not_found [of "\<lambda>s p i. Returns []" "''TCS''" "''1d''"]
    fetch_chart_data_not_found [of "\<lambda>s p i. Raises" "''TCS''" "''1d''"]
  by simp

subsection \<open>Symbol normalisation\<close>

text \<open>
  C7. Normalisation is idempotent: for every string \<open>s\<close>, normalising the normalised
  symbol gives the normalised symbol again.
\<close>

theorem format_symbol_idempotent:
  "format_symbol_for_yahoo (format_symbol_for_yahoo s) = format_symbol_for_yahoo s"
proof -
  have ns: "list_ex (\<lambda>exchange. str_contains exchange (s @ ''.NS'')) indian_exchanges"
    using str_contains_suffix [of "''.NS''" s] by (simp add: indian_exchanges_def)
  show ?thesis
    using ns by (simp add: format_symbol_for_yahoo_def)
qed

text \<open>
  C8. The suffix rule. A string that contains neither \<open>.NS\<close> nor \<open>.BO\<close>, whose upper
  case is not in the list of common US symbols, and that has at most 10 characters and
  no dot among them, is returned with \<open>.NS\<close> appended. So \<open>TCS\<close> becomes \<open>TCS.NS\<close>,
  the empty string becomes \<open>.NS\<close>, and \<open>AAPL\<close> and \<open>RELIANCE.NS\<close> come back as they
  are.
\<close>

theorem format_symbol_suffix_rule:
  "(\<not> str_contains ''.NS'' raw \<and> \<not> str_contains ''.BO'' raw \<and>
    py_upper raw \<notin> set common_us_symbols \<and> length raw \<le> 10 \<and> CHR ''.'' \<notin> set raw
      \<longrightarrow> format_symbol_for_yahoo raw = raw @ ''.NS'') \<and>
   format_symbol_for_yahoo ''TCS'' = ''TCS.NS'' \<and>
   format_symbol_for_yahoo ''AAPL'' = ''AAPL'' \<and>
   format_symbol_for_yahoo ''RELIANCE.NS'' = ''RELIANCE.NS'' \<and>
   format_symbol_for_yahoo '''' = ''.NS''"
proof -
  have general: "\<not> str_contains ''.NS'' raw \<and> \<not> str_contains ''.BO'' raw \<and>
    py_upper raw \<notin> set common_us_symbols \<and> length raw \<le> 10 \<and> CHR ''.'' \<notin> set raw
      \<longrightarrow> format_symbol_for_yahoo raw = raw @ ''.NS''"
    by (simp add: format_symbol_for_yahoo_def indian_exchanges_def str_contains_char)
  have tcs: "format_symbol_for_yahoo ''TCS'' = ''TCS.NS''"
    by (simp add: fmt_eval)
  have aapl: "format_symbol_for_yahoo ''AAPL'' = ''AAPL''"
    by (simp add: fmt_eval)
  have reliance: "format_symbol_for_yahoo ''RELIANCE.NS'' = ''RELIANCE.NS''"
    by (simp add: fmt_eval)
  have empty: "format_symbol_for_yahoo '''' = ''.NS''"
    by (simp add: fmt_eval)
  from general tcs aapl reliance empty show ?thesis by blast
qed

theorem format_symbol_suffix_rule_witness:
  "\<not> str_contains ''.NS'' ''INFY'' \<and> \<not> str_contains ''.BO'' ''INFY'' \<and>
   py_upper ''INFY'' \<notin> set common_us_symbols \<and> length ''INFY'' \<le> 10 \<and>
   CHR ''.'' \<notin> set ''INFY'' \<and> format_symbol_for_yahoo ''INFY'' = ''INFY.NS''"
  using format_symbol_suffix_rule [of "''INFY''"]
  by (simp add: common_us_symbols_def py_upper_def upper_char_def)

subsection \<open>Timeframe table\<close>

text \<open>
  C9, as the table has it. The tokens \<open>2d\<close> and \<open>3d\<close> resolve to the same interval
  \<open>1d\<close> and to the same period \<open>2y\<close>. Two tokens of one interval with different
  periods are \<open>1d\<close> (period \<open>1y\<close>) and \<open>2d\<close> (period \<open>2y\<close>).
\<close>

theorem timeframe_2d_3d_same_pair:
  "get_timeframe_period ''2d'' = (''1d'', ''2y'') \<and>
   get_timeframe_period ''3d'' = (''1d'', ''2y'') \<and>
   get_timeframe_period ''1d'' = (''1d'', ''1y'') \<and>
   fst (get_timeframe_period ''1d'') = fst (get_timeframe_period ''2d'') \<and>
   snd (get_timeframe_period ''1d'') \<noteq> snd (get_timeframe_period ''2d'')"
  by (simp add: get_timeframe_period_def interval_map_def)

text \<open>
  The statement that \<open>2d\<close> and \<open>3d\<close> share the interval but differ in the period
  does not hold of the table.
\<close>

theorem timeframe_2d_3d_counterexample:
  "\<not> (fst (get_timeframe_period ''2d'') = fst (get_timeframe_period ''3d'') \<and>
      snd (get_timeframe_period ''2d'') \<noteq> snd (get_timeframe_period ''3d''))"
  by (simp add: get_timeframe_period_def interval_map_def)

end
